theory Spec2Isabelle
  imports Complex_Main "HOL-Library.Sublist"
begin

section \<open>Python values that reach the coercers\<close>

text \<open>
  The cells of a sheet arrive as decoded JSON scalars (text, integers, floats, booleans);
  the coercers also accept \<open>None\<close> and the structured \<open>date\<close> and \<open>datetime\<close> values
  of the standard library. Text is a list of characters with code points below 256.

  A Python float is a binary64 number. \<open>Fl q\<close> stands for the binary64 number nearest
  to the rational \<open>q\<close>: the model keeps \<open>q\<close> exactly and leaves the rounding of the
  mantissa out. What it does keep is where a conversion leaves the finite range:
  every value of magnitude at least \<open>2^1024 - 2^970\<close> rounds beyond the largest
  finite binary64 number.
\<close>

datatype pyfloat = Fl rat | PosInf | NegInf | NaN

datatype pydate = Date (year: nat) (month: nat) (day: nat)

datatype pytime = Time (hour: nat) (minute: nat) (second: nat) (microsecond: nat)

datatype pyval =
    PNone
  | PBool bool
  | PInt int
  | PFloat pyfloat
  | PStr string
  | PDate pydate
  | PDateTime pydate pytime

datatype coerce_error = OverflowError

definition dbl_limit :: rat where
  "dbl_limit = 2 ^ 1024 - 2 ^ 970"

text \<open>\<open>float(n)\<close> for an integer \<open>n\<close>: raises \<open>OverflowError\<close> beyond the finite range.\<close>

definition float_of_int :: "int \<Rightarrow> coerce_error + pyfloat" where
  "float_of_int n =
     (if dbl_limit \<le> \<bar>of_int n\<bar> then Inl OverflowError else Inr (Fl (of_int n)))"

text \<open>The float a decimal text denotes: beyond the finite range it is an infinity.\<close>

definition float_of_rat :: "rat \<Rightarrow> pyfloat" where
  "float_of_rat q =
     (if dbl_limit \<le> q then PosInf else if q \<le> - dbl_limit then NegInf else Fl q)"

subsection \<open>Text\<close>

text \<open>\<open>str.strip()\<close> removes the characters for which \<open>str.isspace()\<close> holds.\<close>

definition is_space :: "char \<Rightarrow> bool" where
  "is_space c = ((of_char c :: nat) \<in> {9, 10, 11, 12, 13, 28, 29, 30, 31, 32, 133, 160})"

definition py_strip :: "string \<Rightarrow> string" where
  "py_strip s = rev (dropWhile is_space (rev (dropWhile is_space s)))"

definition is_digit :: "char \<Rightarrow> bool" where
  "is_digit c = (c \<in> set ''0123456789'')"

definition digit_val :: "char \<Rightarrow> nat" where
  "digit_val c = (of_char c :: nat) - 48"

fun digits_val :: "nat \<Rightarrow> string \<Rightarrow> nat" where
  "digits_val acc [] = acc"
| "digits_val acc (c # cs) = digits_val (acc * 10 + digit_val c) cs"

text \<open>\<open>'%0*d' % (w, n)\<close> for \<open>n < 10 ^ w\<close>: the \<open>w\<close> decimal digits of \<open>n\<close>.\<close>

fun zpad :: "nat \<Rightarrow> nat \<Rightarrow> string" where
  "zpad 0 n = []"
| "zpad (Suc w) n = zpad w (n div 10) @ [char_of (48 + n mod 10)]"

text \<open>\<open>str(d)\<close> of a date is its ISO form, \<open>YYYY-MM-DD\<close>.\<close>

definition str_date :: "pydate \<Rightarrow> string" where
  "str_date d = zpad 4 (year d) @ ''-'' @ zpad 2 (month d) @ ''-'' @ zpad 2 (day d)"

text \<open>
  \<open>str(dt)\<close> of a (naive) datetime: \<open>YYYY-MM-DD HH:MM:SS\<close>, followed by
  \<open>.ffffff\<close> when the microsecond is not zero.
\<close>

definition str_datetime :: "pydate \<Rightarrow> pytime \<Rightarrow> string" where
  "str_datetime d t =
     str_date d @ '' '' @ zpad 2 (hour t) @ '':'' @ zpad 2 (minute t) @ '':'' @ zpad 2 (second t)
       @ (if microsecond t = 0 then [] else ''.'' @ zpad 6 (microsecond t))"

subsection \<open>Reading a float from text\<close>

text \<open>
  \<open>float(s)\<close> on a text \<open>s\<close> made of decimal digits, dots and minus signs only, which
  is all \<open>clean_currency\<close> ever passes to it: an optional minus sign, then digits with
  at most one dot and at least one digit. Anything else is a \<open>ValueError\<close>, here
  \<open>None\<close>. (On other alphabets \<open>float\<close> also reads a plus sign, an exponent,
  underscores, surrounding blanks and the words \<open>inf\<close> and \<open>nan\<close>.)
  The sign of a zero is not kept.
\<close>

definition parse_number :: "string \<Rightarrow> rat option" where
  "parse_number s =
     (let ip = takeWhile is_digit s; r = dropWhile is_digit s in
      case r of
        [] \<Rightarrow> if ip = [] then None else Some (of_nat (digits_val 0 ip))
      | c # fp \<Rightarrow>
          if c = CHR ''.'' \<and> list_all is_digit fp \<and> (ip \<noteq> [] \<or> fp \<noteq> [])
          then Some (of_nat (digits_val 0 (ip @ fp)) / 10 ^ length fp)
          else None)"

definition float_of_str :: "string \<Rightarrow> pyfloat option" where
  "float_of_str s =
     (case s of
        [] \<Rightarrow> None
      | c # r \<Rightarrow>
          if c = CHR ''-'' then map_option (\<lambda>q. float_of_rat (- q)) (parse_number r)
          else map_option float_of_rat (parse_number s))"

section \<open>Currency coercion\<close>

text \<open>\<open>re.sub(r"[^0-9,\.\-]", "", s)\<close>: keep digits, commas, dots and minus signs.\<close>

definition keep_currency_chars :: "string \<Rightarrow> string" where
  "keep_currency_chars s = filter (\<lambda>c. c \<in> set ''0123456789,.-'') s"

definition remove_dots :: "string \<Rightarrow> string" where
  "remove_dots s = filter (\<lambda>c. c \<noteq> CHR ''.'') s"

definition commas_to_dots :: "string \<Rightarrow> string" where
  "commas_to_dots s = map (\<lambda>c. if c = CHR '','' then CHR ''.'' else c) s"

text \<open>The two \<open>replace\<close> branches of \<open>clean_currency\<close>, on the filtered text.\<close>

definition normalize_separators :: "string \<Rightarrow> string" where
  "normalize_separators s =
     (if CHR '','' \<in> set s \<and> CHR ''.'' \<in> set s then commas_to_dots (remove_dots s)
      else if CHR '','' \<in> set s \<and> CHR ''.'' \<notin> set s then commas_to_dots s
      else s)"

text \<open>
  The text branch of \<open>clean_currency\<close>, from \<open>str(value).strip()\<close> on: the bare
  \<open>except\<close> turns every failure of \<open>float(s)\<close> into the empty text.
\<close>

definition clean_currency_text :: "string \<Rightarrow> pyval" where
  "clean_currency_text t =
     (let s = py_strip t;
          s = keep_currency_chars s;
          s = normalize_separators s
      in case float_of_str s of Some f \<Rightarrow> PFloat f | None \<Rightarrow> PStr [])"

text \<open>
  \<open>clean_currency\<close>. \<open>bool\<close> is a subclass of \<open>int\<close>, so a boolean takes the numeric
  branch. The cast \<open>float(value)\<close> of the numeric branch is outside the \<open>try\<close>.
\<close>

definition clean_currency :: "pyval \<Rightarrow> coerce_error + pyval" where
  "clean_currency v =
     (if v = PNone \<or> v = PStr [] then Inr (PStr [])
      else case v of
        PBool b \<Rightarrow> map_sum id PFloat (float_of_int (if b then 1 else 0))
      | PInt n \<Rightarrow> map_sum id PFloat (float_of_int n)
      | PFloat f \<Rightarrow> Inr (PFloat f)
      | PStr t \<Rightarrow> Inr (clean_currency_text t)
      | PDate d \<Rightarrow> Inr (clean_currency_text (str_date d))
      | PDateTime d t \<Rightarrow> Inr (clean_currency_text (str_datetime d t))
      | PNone \<Rightarrow> Inr (PStr []))"

section \<open>Date coercion\<close>

subsection \<open>Calendar arithmetic of \<open>datetime.date\<close>\<close>

definition is_leap :: "nat \<Rightarrow> bool" where
  "is_leap y = (y mod 4 = 0 \<and> (y mod 100 \<noteq> 0 \<or> y mod 400 = 0))"

definition days_in_month :: "nat \<Rightarrow> nat \<Rightarrow> nat" where
  "days_in_month y m =
     (if m = 2 \<and> is_leap y then 29
      else [31, 28, 31, 30, 31, 30, 31, 31, 30, 31, 30, 31] ! (m - 1))"

text \<open>The constructor \<open>date(y, m, d)\<close> raises \<open>ValueError\<close> unless this holds.\<close>

definition valid_date :: "nat \<Rightarrow> nat \<Rightarrow> nat \<Rightarrow> bool" where
  "valid_date y m d =
     (1 \<le> y \<and> y \<le> 9999 \<and> 1 \<le> m \<and> m \<le> 12 \<and> 1 \<le> d \<and> d \<le> days_in_month y m)"

definition days_before_year :: "nat \<Rightarrow> int" where
  "days_before_year y =
     (let y1 = int y - 1 in y1 * 365 + y1 div 4 - y1 div 100 + y1 div 400)"

definition days_before_month :: "nat \<Rightarrow> nat \<Rightarrow> int" where
  "days_before_month y m =
     int (sum_list (take (m - 1) [31, 28, 31, 30, 31, 30, 31, 31, 30, 31, 30, 31]))
       + (if 2 < m \<and> is_leap y then 1 else 0)"

text \<open>\<open>d.toordinal()\<close>: the proleptic Gregorian ordinal, 1 for 0001-01-01.\<close>

definition toordinal :: "pydate \<Rightarrow> int" where
  "toordinal d = days_before_year (year d) + days_before_month (year d) (month d) + int (day d)"

subsection \<open>\<open>datetime.strptime\<close> on the four formats\<close>

text \<open>
  \<open>strptime\<close> turns the format into a regular expression, one group per directive,
  matches it at the start of the text with a backtracking matcher, and raises
  \<open>ValueError\<close> when nothing matches or when text remains after the match. A group
  is modelled by the list of its matches in the order the matcher tries them, each
  with the text left over; the first element of the list for the whole format is what
  \<open>re.match\<close> returns.
\<close>

datatype directive = Dir_d | Dir_m | Dir_Y | Dir_y | Lit char

fun rx_class :: "(char \<Rightarrow> bool) list \<Rightarrow> string \<Rightarrow> (string \<times> string) list" where
  "rx_class [] s = [([], s)]"
| "rx_class (p # ps) [] = []"
| "rx_class (p # ps) (c # cs) =
     (if p c then map (\<lambda>(m, r). (c # m, r)) (rx_class ps cs) else [])"

definition one_of :: "string \<Rightarrow> char \<Rightarrow> bool" where
  "one_of cs c = (c \<in> set cs)"

text \<open>
  \<open>%d\<close> is \<open>3[0-1]|[1-2]\d|0[1-9]|[1-9]| [1-9]\<close>, \<open>%m\<close> is \<open>1[0-2]|0[1-9]|[1-9]\<close>,
  \<open>%Y\<close> is \<open>\d\d\d\d\<close>, \<open>%y\<close> is \<open>\d\d\<close>; any other character of these formats
  stands for itself.
\<close>

fun rx_item :: "directive \<Rightarrow> string \<Rightarrow> (string \<times> string) list" where
  "rx_item Dir_d s =
     rx_class [one_of ''3'', one_of ''01''] s @
     rx_class [one_of ''12'', is_digit] s @
     rx_class [one_of ''0'', one_of ''123456789''] s @
     rx_class [one_of ''123456789''] s @
     rx_class [one_of '' '', one_of ''123456789''] s"
| "rx_item Dir_m s =
     rx_class [one_of ''1'', one_of ''012''] s @
     rx_class [one_of ''0'', one_of ''123456789''] s @
     rx_class [one_of ''123456789''] s"
| "rx_item Dir_Y s = rx_class [is_digit, is_digit, is_digit, is_digit] s"
| "rx_item Dir_y s = rx_class [is_digit, is_digit] s"
| "rx_item (Lit c) s = rx_class [\<lambda>x. x = c] s"

fun rx_format :: "directive list \<Rightarrow> string \<Rightarrow> ((directive \<times> string) list \<times> string) list" where
  "rx_format [] s = [([], s)]"
| "rx_format (i # is) s =
     concat (map (\<lambda>(m, r). map (\<lambda>(ms, r'). ((i, m) # ms, r')) (rx_format is r)) (rx_item i s))"

text \<open>\<open>int(t)\<close> of a matched group: digits, after a blank that \<open>%d\<close> may have matched.\<close>

definition group_int :: "string \<Rightarrow> nat" where
  "group_int t = digits_val 0 (py_strip t)"

text \<open>
  A two-digit year up to 68 is in the 2000s, from 69 on in the 1900s. The result is
  \<open>None\<close> where \<open>strptime\<close> raises \<open>ValueError\<close>: no match, unconverted text, or a
  day that the month does not have (the year 0 included).
\<close>

definition strptime :: "string \<Rightarrow> directive list \<Rightarrow> pydate option" where
  "strptime s fmt =
     (case rx_format fmt s of
        [] \<Rightarrow> None
      | (groups, rest) # _ \<Rightarrow>
          if rest \<noteq> [] then None
          else
            let y = (case map_of groups Dir_Y of
                       Some t \<Rightarrow> group_int t
                     | None \<Rightarrow>
                         (case map_of groups Dir_y of
                            Some t \<Rightarrow> (if group_int t \<le> 68 then group_int t + 2000
                                       else group_int t + 1900)
                          | None \<Rightarrow> 1900));
                m = (case map_of groups Dir_m of Some t \<Rightarrow> group_int t | None \<Rightarrow> 1);
                d = (case map_of groups Dir_d of Some t \<Rightarrow> group_int t | None \<Rightarrow> 1)
            in if valid_date y m d then Some (Date y m d) else None)"

text \<open>The formats of \<open>to_gs_serial\<close>, in its order.\<close>

definition date_formats :: "directive list list" where
  "date_formats =
     [[Dir_d, Lit (CHR ''/''), Dir_m, Lit (CHR ''/''), Dir_Y],
      [Dir_Y, Lit (CHR ''-''), Dir_m, Lit (CHR ''-''), Dir_d],
      [Dir_d, Lit (CHR ''-''), Dir_m, Lit (CHR ''-''), Dir_Y],
      [Dir_d, Lit (CHR ''/''), Dir_m, Lit (CHR ''/''), Dir_y]]"

text \<open>The loop over the formats: the first format that parses wins.\<close>

fun try_formats :: "string \<Rightarrow> directive list list \<Rightarrow> pydate option" where
  "try_formats s [] = None"
| "try_formats s (f # fs) =
     (case strptime s f of Some d \<Rightarrow> Some d | None \<Rightarrow> try_formats s fs)"

definition epoch :: pydate where
  "epoch = Date 1899 12 30"

text \<open>\<open>float((py_date - epoch).days)\<close>.\<close>

definition serial_of_date :: "pydate \<Rightarrow> coerce_error + pyval" where
  "serial_of_date d = map_sum id PFloat (float_of_int (toordinal d - toordinal epoch))"

text \<open>
  \<open>to_gs_serial\<close>. A number (a boolean included) is returned as it is; a datetime
  gives its date component.
\<close>

definition to_gs_serial :: "pyval \<Rightarrow> coerce_error + pyval" where
  "to_gs_serial dt =
     (if dt = PNone \<or> dt = PStr [] then Inr (PStr [])
      else case dt of
        PBool b \<Rightarrow> Inr dt
      | PInt n \<Rightarrow> Inr dt
      | PFloat f \<Rightarrow> Inr dt
      | PDateTime d t \<Rightarrow> serial_of_date d
      | PDate d \<Rightarrow> serial_of_date d
      | PStr t \<Rightarrow>
          (let s = py_strip t in
           if s = [] then Inr (PStr [])
           else case try_formats s date_formats of
                  None \<Rightarrow> Inr (PStr [])
                | Some d \<Rightarrow> serial_of_date d)
      | PNone \<Rightarrow> Inr (PStr []))"

section \<open>Reading the mapped columns\<close>

definition MAX_ROWS_SCAN :: nat where
  "MAX_ROWS_SCAN = 120000"

text \<open>\<open>batch[i] if i < len(batch) else []\<close>: the rows the remote call returned for range \<open>i\<close>.\<close>

definition col_vals_raw :: "pyval list list list \<Rightarrow> nat \<Rightarrow> pyval list list" where
  "col_vals_raw batch i = (if i < length batch then batch ! i else [])"

text \<open>\<open>[row[0] if row else "" for row in col_vals_raw]\<close>.\<close>

definition flat :: "pyval list list \<Rightarrow> pyval list" where
  "flat raw = map (\<lambda>row. case row of [] \<Rightarrow> PStr [] | c # _ \<Rightarrow> c) raw"

text \<open>
  The dictionary \<open>data_cols\<close>, as the list of its items in insertion order: one
  assignment \<open>data_cols[src_col] = flat\<close> per mapped source column, in mapping order.
\<close>

fun dict_set :: "string \<Rightarrow> 'v \<Rightarrow> (string \<times> 'v) list \<Rightarrow> (string \<times> 'v) list" where
  "dict_set k v [] = [(k, v)]"
| "dict_set k v ((k', v') # kvs) =
     (if k = k' then (k, v) # kvs else (k', v') # dict_set k v kvs)"

fun normalize_loop ::
  "pyval list list list \<Rightarrow> nat \<Rightarrow> string list \<Rightarrow> (string \<times> pyval list) list
     \<Rightarrow> (string \<times> pyval list) list" where
  "normalize_loop batch i [] data_cols = data_cols"
| "normalize_loop batch i (src_col # rest) data_cols =
     normalize_loop batch (Suc i) rest (dict_set src_col (flat (col_vals_raw batch i)) data_cols)"

definition normalize_columns ::
  "string list \<Rightarrow> pyval list list list \<Rightarrow> (string \<times> pyval list) list" where
  "normalize_columns src_cols batch = normalize_loop batch 0 src_cols []"

text \<open>
  The read of one cell by the coercion loop of \<open>run_once\<close>:
  \<open>data_cols[src_col][r] if r < len(data_cols[src_col]) else ""\<close>.
\<close>

definition cell_at :: "pyval list \<Rightarrow> nat \<Rightarrow> pyval" where
  "cell_at col r = (if r < length col then col ! r else PStr [])"

section \<open>Row-count inference\<close>

text \<open>
  The loop test \<open>v[-1] == "" or str(v[-1]).strip() == ""\<close>. The text of \<open>None\<close>, of a
  boolean, of a number and of a date (\<open>None\<close>, \<open>True\<close>, a numeral, an ISO date) is
  never empty or blank, so only a text can pass the test.
\<close>

fun cell_blank :: "pyval \<Rightarrow> bool" where
  "cell_blank (PStr t) = (t = [] \<or> py_strip t = [])"
| "cell_blank _ = False"

text \<open>\<open>while v and blank(v[-1]): v.pop()\<close>.\<close>

function pop_blanks :: "pyval list \<Rightarrow> pyval list" where
  "pop_blanks v = (if v \<noteq> [] \<and> cell_blank (last v) then pop_blanks (butlast v) else v)"
  by pat_completeness auto
termination
  by (relation "measure length") auto

definition calc_num_rows_from_columns :: "(string \<times> pyval list) list \<Rightarrow> nat" where
  "calc_num_rows_from_columns cols_dict =
     fold (\<lambda>(col, values) max_len.
             let v = pop_blanks values in
             if length v > max_len then length v else max_len)
          cols_dict 0"

text \<open>
  The words of the specification: a column stripped of its trailing run of blank
  entries.
\<close>

definition strip_trailing_blanks :: "pyval list \<Rightarrow> pyval list" where
  "strip_trailing_blanks v = rev (dropWhile cell_blank (rev v))"

section \<open>Chunked data write\<close>

definition BATCH_ROWS :: nat where
  "BATCH_ROWS = 3000"

definition DEST_DATA_START_ROW :: int where
  "DEST_DATA_START_ROW = 3"

text \<open>
  The write loop of \<open>run_once\<close>, as the list of the \<open>set_matrix\<close> calls it issues when
  each of them succeeds: first row, last row and rows written. \<open>treated_matrix\<close> has one
  row per data row, so \<open>num_rows_data\<close> is its length.
\<close>

function write_chunks :: "'a list \<Rightarrow> nat \<Rightarrow> int \<Rightarrow> (int \<times> int \<times> 'a list) list" where
  "write_chunks treated_matrix i start_row_dst =
     (if i < length treated_matrix then
        let chunk = take BATCH_ROWS (drop i treated_matrix);
            chunk_end = start_row_dst + int (length chunk) - 1
        in (start_row_dst, chunk_end, chunk)
             # write_chunks treated_matrix (i + length chunk) (chunk_end + 1)
      else [])"
  by pat_completeness auto
termination
  by (relation "measure (\<lambda>(m, i, s). length m - i)") (auto simp: BATCH_ROWS_def)

definition data_writes :: "'a list \<Rightarrow> (int \<times> int \<times> 'a list) list" where
  "data_writes treated_matrix =
     (if treated_matrix \<noteq> [] then write_chunks treated_matrix 0 DEST_DATA_START_ROW else [])"

text \<open>The destination rows a write covers.\<close>

definition rows_of :: "int \<times> int \<times> 'a list \<Rightarrow> int list" where
  "rows_of w = [fst w .. fst (snd w)]"

section \<open>Retry\<close>

text \<open>
  An exception is an \<open>APIError\<close> of the remote client or anything else; each carries
  its rendered text \<open>str(e)\<close>.
\<close>

datatype pyexc = APIError string | OtherError string

datatype 'a outcome = Returned 'a | Raised pyexc

text \<open>\<open>code in s\<close> on texts: \<open>code\<close> occurs in \<open>s\<close> as a contiguous run.\<close>

fun py_in :: "string \<Rightarrow> string \<Rightarrow> bool" where
  "py_in code [] = (code = [])"
| "py_in code (c # cs) = (prefix code (c # cs) \<or> py_in code cs)"

definition is_retryable_api_error :: "string \<Rightarrow> bool" where
  "is_retryable_api_error s = list_ex (\<lambda>code. py_in code s) [''429'', ''500'', ''502'', ''503'']"

text \<open>\<open>random.uniform(a, b)\<close> is \<open>a + (b - a) * random()\<close>; \<open>u\<close> is what \<open>random()\<close> returns.\<close>

definition uniform :: "rat \<Rightarrow> rat \<Rightarrow> rat \<Rightarrow> rat" where
  "uniform a b u = a + (b - a) * u"

text \<open>
  \<open>with_retry\<close>. \<open>call k\<close> is the outcome of the \<open>k\<close>-th invocation of the wrapped call
  and \<open>rnd k\<close> what \<open>random()\<close> returns after the \<open>k\<close>-th failure. Delays are exact
  rationals. The result is what \<open>with_retry\<close> returns or raises, the delays slept in
  order, and the value of \<open>attempt\<close> at the end, which is the number of invocations.
\<close>

function with_retry_loop ::
  "(nat \<Rightarrow> 'a outcome) \<Rightarrow> (nat \<Rightarrow> rat) \<Rightarrow> int \<Rightarrow> rat \<Rightarrow> rat \<Rightarrow> nat \<Rightarrow> rat list
     \<Rightarrow> (pyexc + 'a) \<times> rat list \<times> nat" where
  "with_retry_loop call rnd max_tries base cap attempt slept =
     (case call attempt of
        Returned x \<Rightarrow> (Inr x, slept, attempt)
      | Raised (APIError e) \<Rightarrow>
          if \<not> is_retryable_api_error e \<or> int attempt \<ge> max_tries
          then (Inl (APIError e), slept, attempt)
          else
            let delay = min cap (base * 2 ^ (attempt - 1)) + uniform 0 (1 / 2) (rnd attempt)
            in with_retry_loop call rnd max_tries base cap (attempt + 1) (slept @ [delay])
      | Raised (OtherError e) \<Rightarrow>
          if int attempt \<ge> min 3 max_tries
          then (Inl (OtherError e), slept, attempt)
          else
            let delay = 1 + uniform 0 (1 / 2) (rnd attempt)
            in with_retry_loop call rnd max_tries base cap (attempt + 1) (slept @ [delay]))"
  by pat_completeness auto
termination
  by (relation "measure (\<lambda>(call, rnd, max_tries, base, cap, attempt, slept).
                  nat (max_tries - int attempt))") auto

definition with_retry ::
  "(nat \<Rightarrow> 'a outcome) \<Rightarrow> (nat \<Rightarrow> rat) \<Rightarrow> int \<Rightarrow> rat \<Rightarrow> rat
     \<Rightarrow> (pyexc + 'a) \<times> rat list \<times> nat" where
  "with_retry call rnd max_tries base cap = with_retry_loop call rnd max_tries base cap 1 []"

section \<open>Run-level restart\<close>

definition MAX_RUN_TRIES :: nat where
  "MAX_RUN_TRIES = 3"

text \<open>
  \<open>main\<close>. \<open>run_once k\<close> is the outcome of the \<open>k\<close>-th run, which authenticates and
  opens both sheets anew. A loop that ran out of attempts would return \<open>None\<close>.
\<close>

function main_loop ::
  "(nat \<Rightarrow> unit outcome) \<Rightarrow> (nat \<Rightarrow> rat) \<Rightarrow> nat \<Rightarrow> rat list
     \<Rightarrow> (pyexc + unit) \<times> rat list \<times> nat" where
  "main_loop run_once rnd attempt slept =
     (if attempt > MAX_RUN_TRIES then (Inr (), slept, attempt)
      else case run_once attempt of
        Returned x \<Rightarrow> (Inr (), slept, attempt)
      | Raised (APIError e) \<Rightarrow>
          if is_retryable_api_error e \<and> attempt < MAX_RUN_TRIES then
            let delay = 5 * of_nat attempt + uniform 0 (3 / 2) (rnd attempt)
            in main_loop run_once rnd (attempt + 1) (slept @ [delay])
          else (Inl (APIError e), slept, attempt)
      | Raised (OtherError e) \<Rightarrow>
          if attempt < MAX_RUN_TRIES then
            let delay = 3 + uniform 0 1 (rnd attempt)
            in main_loop run_once rnd (attempt + 1) (slept @ [delay])
          else (Inl (OtherError e), slept, attempt))"
  by pat_completeness auto
termination
  by (relation "measure (\<lambda>(run_once, rnd, attempt, slept). Suc MAX_RUN_TRIES - attempt)") auto

definition main :: "(nat \<Rightarrow> unit outcome) \<Rightarrow> (nat \<Rightarrow> rat) \<Rightarrow> (pyexc + unit) \<times> rat list \<times> nat" where
  "main run_once rnd = main_loop run_once rnd 1 []"

section \<open>Configuration and value classes\<close>

text \<open>\<open>MAPPINGS\<close>: source column, destination column and type tag, in mapping order.\<close>

definition MAPPINGS :: "(string \<times> string \<times> string) list" where
  "MAPPINGS =
     [(''AC'', ''B'', ''texto''), (''AA'', ''C'', ''texto''), (''Z'', ''D'', ''texto''),
      (''AK'', ''E'', ''texto''), (''A'', ''F'', ''texto''), (''B'', ''G'', ''texto''),
      (''H'', ''H'', ''texto''), (''AJ'', ''I'', ''texto''), (''I'', ''J'', ''texto''),
      (''Q'', ''K'', ''data''), (''R'', ''L'', ''data''), (''M'', ''M'', ''data''),
      (''AL'', ''N'', ''data''), (''AM'', ''O'', ''data''), (''N'', ''P'', ''data''),
      (''J'', ''Q'', ''valor''), (''K'', ''R'', ''valor''), (''Y'', ''S'', ''valor''),
      (''X'', ''T'', ''valor''), (''AB'', ''U'', ''valor''), (''AF'', ''V'', ''valor''),
      (''AE'', ''W'', ''valor''), (''AN'', ''X'', ''texto'')]"

text \<open>The normalization step of \<open>run_once\<close> on the batch the remote read returned.\<close>

definition data_cols :: "pyval list list list \<Rightarrow> (string \<times> pyval list) list" where
  "data_cols batch = normalize_columns (map fst MAPPINGS) batch"

text \<open>
  \<open>with_retry\<close> as every caller in the program uses it, with the defaults of its
  signature: \<open>max_tries = 9\<close>, \<open>base = 0.8\<close>, \<open>cap = 12.0\<close>.
\<close>

definition with_retry_default ::
  "(nat \<Rightarrow> 'a outcome) \<Rightarrow> (nat \<Rightarrow> rat) \<Rightarrow> (pyexc + 'a) \<times> rat list \<times> nat" where
  "with_retry_default call rnd = with_retry call rnd 9 (4 / 5) 12"

text \<open>\<open>isinstance(v, (int, float))\<close>.\<close>

fun is_number :: "pyval \<Rightarrow> bool" where
  "is_number (PBool b) = True"
| "is_number (PInt n) = True"
| "is_number (PFloat f) = True"
| "is_number v = False"

text \<open>
  The fields of a \<open>date\<close> or \<open>datetime\<close> value form a calendar date: their
  constructors accept nothing else.
\<close>

fun date_fields_valid :: "pyval \<Rightarrow> bool" where
  "date_fields_valid (PDate d) = valid_date (year d) (month d) (day d)"
| "date_fields_valid (PDateTime d t) = valid_date (year d) (month d) (day d)"
| "date_fields_valid v = True"

text \<open>
  The equations of the loops are unfolded one iteration at a time, by the step lemmas
  of each section.
\<close>

declare with_retry_loop.simps [simp del] main_loop.simps [simp del]
  write_chunks.simps [simp del] pop_blanks.simps [simp del]

section \<open>Properties of the currency coercer\<close>

lemmas currency_defs =
  clean_currency_def clean_currency_text_def py_strip_def is_space_def keep_currency_chars_def
  normalize_separators_def remove_dots_def commas_to_dots_def float_of_str_def parse_number_def
  is_digit_def digit_val_def float_of_rat_def float_of_int_def dbl_limit_def

text \<open>
  C1, as the specification states it, fails: with both a comma and a dot in the text the
  dots are dropped and the comma becomes the decimal point, so \<open>1,234.56\<close> is read as
  \<open>1.23456\<close> (that is \<open>3858 / 3125\<close>) and not as \<open>1234.56\<close>.
\<close>

theorem clean_currency_us_format_counterexample:
  "clean_currency (PStr ''1,234.56'') = Inr (PFloat (Fl (3858 / 3125))) \<and>
   clean_currency (PStr ''1,234.56'') \<noteq> Inr (PFloat (Fl (123456 / 100)))"
  by (simp add: currency_defs)

text \<open>
  C1, amended: \<open>clean_currency\<close> maps the text \<open>1.234,56\<close> to the float \<open>1234.56\<close>, the
  text \<open>1,234.56\<close> to the float \<open>1.23456\<close>, the empty text to the empty text, the text
  \<open>abc\<close> to the empty text, and the integer \<open>1500\<close> to the float \<open>1500.0\<close>.
\<close>

theorem clean_currency_examples:
  "clean_currency (PStr ''1.234,56'') = Inr (PFloat (Fl (123456 / 100))) \<and>
   clean_currency (PStr ''1,234.56'') = Inr (PFloat (Fl (123456 / 100000))) \<and>
   clean_currency (PStr []) = Inr (PStr []) \<and>
   clean_currency (PStr ''abc'') = Inr (PStr []) \<and>
   clean_currency (PInt 1500) = Inr (PFloat (Fl 1500))"
  by (simp add: currency_defs)

section \<open>Properties of the date coercer\<close>

lemmas date_defs =
  to_gs_serial_def serial_of_date_def float_of_int_def dbl_limit_def toordinal_def
  days_before_year_def days_before_month_def is_leap_def epoch_def py_strip_def is_space_def
  date_formats_def strptime_def one_of_def is_digit_def group_int_def digit_val_def
  valid_date_def days_in_month_def

text \<open>
  C8: the date 2024-01-15, the text \<open>15/01/2024\<close> and the text \<open>2024-01-15\<close> all
  give the same serial, the float of the number of days from the epoch 1899-12-30 to
  2024-01-15 (45306), and the text \<open>not-a-date\<close> gives the empty text.
\<close>

theorem to_gs_serial_examples:
  "to_gs_serial (PDate (Date 2024 1 15))
     = Inr (PFloat (Fl (of_int (toordinal (Date 2024 1 15) - toordinal epoch)))) \<and>
   to_gs_serial (PStr ''15/01/2024'') = to_gs_serial (PDate (Date 2024 1 15)) \<and>
   to_gs_serial (PStr ''2024-01-15'') = to_gs_serial (PDate (Date 2024 1 15)) \<and>
   to_gs_serial (PDate (Date 2024 1 15)) = Inr (PFloat (Fl 45306)) \<and>
   to_gs_serial (PStr ''not-a-date'') = Inr (PStr [])"
proof -
  have a: "to_gs_serial (PDate (Date 2024 1 15)) = Inr (PFloat (Fl 45306))"
    by (simp add: date_defs)
  have b: "toordinal (Date 2024 1 15) - toordinal epoch = 45306"
    by (simp add: date_defs)
  have c: "to_gs_serial (PStr ''15/01/2024'') = Inr (PFloat (Fl 45306))"
    by (simp add: date_defs)
  have d: "to_gs_serial (PStr ''2024-01-15'') = Inr (PFloat (Fl 45306))"
    by (simp add: date_defs)
  have e: "to_gs_serial (PStr ''not-a-date'') = Inr (PStr [])"
    by (simp add: date_defs)
  show ?thesis by (simp only: a b c d e of_int_numeral simp_thms)
qed

section \<open>Properties of row-count inference\<close>

lemma pop_blanks_snoc:
  "pop_blanks (xs @ [x]) = (if cell_blank x then pop_blanks xs else xs @ [x])"
  by (subst pop_blanks.simps) simp

lemma pop_blanks_strip: "pop_blanks v = strip_trailing_blanks v"
proof (induction v rule: rev_induct)
  case Nil
  show ?case by (subst pop_blanks.simps) (simp add: strip_trailing_blanks_def)
next
  case (snoc x xs)
  then show ?case by (simp add: pop_blanks_snoc strip_trailing_blanks_def)
qed

lemma Max_insert_max:
  "finite A \<Longrightarrow> Max (insert (max l a) A) = Max (insert a (insert l A))" for l a :: nat
  by (cases "A = {}") (simp_all add: max.assoc max.commute max.left_commute)

lemma fold_max_len:
  "fold (\<lambda>(col, values) max_len.
           let v = pop_blanks values in
           if length v > max_len then length v else max_len) cols a
   = Max (insert a ((\<lambda>(col, values). length (strip_trailing_blanks values)) ` set cols))"
proof (induction cols arbitrary: a)
  case Nil
  show ?case by simp
next
  case (Cons c cols)
  obtain col vs where c: "c = (col, vs)" by (cases c)
  let ?g = "\<lambda>(col, values). length (strip_trailing_blanks values)"
  let ?l = "length (strip_trailing_blanks vs)"
  have m: "Max (insert (max ?l a) (?g ` set cols)) = Max (insert a (insert ?l (?g ` set cols)))"
    by (rule Max_insert_max) simp
  let ?f = "\<lambda>(col, values) max_len.
           let v = pop_blanks values in
           if length v > max_len then length v else max_len"
  have "fold ?f (c # cols) a = fold ?f cols (max ?l a)"
    by (simp add: c pop_blanks_strip Let_def max_def)
  also have "\<dots> = Max (insert (max ?l a) (?g ` set cols))"
    by (rule Cons.IH)
  also have "\<dots> = Max (insert a (insert ?l (?g ` set cols)))"
    by (rule m)
  also have "insert ?l (?g ` set cols) = ?g ` set (c # cols)"
    by (simp add: c)
  finally show ?case .
qed




section \<open>Properties of the error classifier\<close>

lemma py_in_sublist: "py_in code s = sublist code s"
  by (induction s) (simp_all add: sublist_Cons_right)

text \<open>
  C7: an API error is classified as retryable if and only if its rendered text contains
  one of \<open>429\<close>, \<open>500\<close>, \<open>502\<close>, \<open>503\<close> as a contiguous run; texts that show
  400, 403 or 404 and none of the four codes are not retryable.
\<close>

theorem is_retryable_api_error_iff:
  "(is_retryable_api_error s \<longleftrightarrow>
      (\<exists>u v. s = u @ ''429'' @ v) \<or> (\<exists>u v. s = u @ ''500'' @ v) \<or>
      (\<exists>u v. s = u @ ''502'' @ v) \<or> (\<exists>u v. s = u @ ''503'' @ v)) \<and>
   is_retryable_api_error ''APIError: [429]: Quota exceeded'' \<and>
   is_retryable_api_error ''{'code': 503, 'status': 'UNAVAILABLE'}'' \<and>
   \<not> is_retryable_api_error ''APIError: [400]: Bad Request'' \<and>
   \<not> is_retryable_api_error ''APIError: [403]: Forbidden'' \<and>
   \<not> is_retryable_api_error ''APIError: [404]: Not Found''"
proof -
  have "is_retryable_api_error s \<longleftrightarrow>
      (\<exists>u v. s = u @ ''429'' @ v) \<or> (\<exists>u v. s = u @ ''500'' @ v) \<or>
      (\<exists>u v. s = u @ ''502'' @ v) \<or> (\<exists>u v. s = u @ ''503'' @ v)"
    unfolding is_retryable_api_error_def py_in_sublist sublist_def by simp
  moreover have "is_retryable_api_error ''APIError: [429]: Quota exceeded''"
    by (simp add: is_retryable_api_error_def)
  moreover have "is_retryable_api_error ''{'code': 503, 'status': 'UNAVAILABLE'}''"
    by (simp add: is_retryable_api_error_def)
  moreover have "\<not> is_retryable_api_error ''APIError: [400]: Bad Request''"
    by (simp add: is_retryable_api_error_def)
  moreover have "\<not> is_retryable_api_error ''APIError: [403]: Forbidden''"
    by (simp add: is_retryable_api_error_def)
  moreover have "\<not> is_retryable_api_error ''APIError: [404]: Not Found''"
    by (simp add: is_retryable_api_error_def)
  ultimately show ?thesis by blast
qed

section \<open>Properties of the retry loop\<close>

lemma uniform_bounds:
  "0 \<le> u \<Longrightarrow> u \<le> 1 \<Longrightarrow> a \<le> b \<Longrightarrow> a \<le> uniform a b u \<and> uniform a b u \<le> b"
proof -
  assume u: "0 \<le> u" "u \<le> 1" and ab: "a \<le> b"
  have "0 \<le> (b - a) * u" using u ab by simp
  moreover have "(b - a) * u \<le> (b - a) * 1"
    using u ab by (intro mult_left_mono) simp_all
  ultimately show ?thesis by (simp add: uniform_def)
qed

lemma with_retry_loop_returned:
  "call a = Returned x \<Longrightarrow> with_retry_loop call rnd mt base cap a slept = (Inr x, slept, a)"
  by (subst with_retry_loop.simps) simp

lemma with_retry_loop_api_raise:
  "call a = Raised (APIError e) \<Longrightarrow> \<not> is_retryable_api_error e \<or> mt \<le> int a \<Longrightarrow>
   with_retry_loop call rnd mt base cap a slept = (Inl (APIError e), slept, a)"
  by (subst with_retry_loop.simps) simp

lemma with_retry_loop_api_retry:
  "call a = Raised (APIError e) \<Longrightarrow> \<not> (\<not> is_retryable_api_error e \<or> mt \<le> int a) \<Longrightarrow>
   with_retry_loop call rnd mt base cap a slept =
   with_retry_loop call rnd mt base cap (a + 1)
     (slept @ [min cap (base * 2 ^ (a - 1)) + uniform 0 (1 / 2) (rnd a)])"
  by (subst with_retry_loop.simps) (simp add: Let_def)

lemma with_retry_loop_other_raise:
  "call a = Raised (OtherError e) \<Longrightarrow> min 3 mt \<le> int a \<Longrightarrow>
   with_retry_loop call rnd mt base cap a slept = (Inl (OtherError e), slept, a)"
  by (subst with_retry_loop.simps) simp

lemma with_retry_loop_other_retry:
  "call a = Raised (OtherError e) \<Longrightarrow> \<not> min 3 mt \<le> int a \<Longrightarrow>
   with_retry_loop call rnd mt base cap a slept =
   with_retry_loop call rnd mt base cap (a + 1) (slept @ [1 + uniform 0 (1 / 2) (rnd a)])"
  by (subst with_retry_loop.simps) (simp add: Let_def)

lemma with_retry_loop_trace:
  "with_retry_loop call rnd mt base cap a slept = (res, slept', n) \<Longrightarrow>
   a \<le> n \<and>
   slept' = slept @ map (\<lambda>k. case call k of
                                 Raised (APIError e) \<Rightarrow>
                                   min cap (base * 2 ^ (k - 1)) + uniform 0 (1 / 2) (rnd k)
                               | _ \<Rightarrow> 1 + uniform 0 (1 / 2) (rnd k)) [a..<n] \<and>
   (\<forall>k. a \<le> k \<and> k < n \<longrightarrow>
        (case call k of
           Returned x \<Rightarrow> False
         | Raised (APIError e) \<Rightarrow> is_retryable_api_error e \<and> int k < mt
         | Raised (OtherError e) \<Rightarrow> int k < min 3 mt)) \<and>
   (case call n of
      Returned x \<Rightarrow> res = Inr x
    | Raised (APIError e) \<Rightarrow>
        res = Inl (APIError e) \<and> (\<not> is_retryable_api_error e \<or> mt \<le> int n)
    | Raised (OtherError e) \<Rightarrow> res = Inl (OtherError e) \<and> min 3 mt \<le> int n)"
proof (induction call rnd mt base cap a slept rule: with_retry_loop.induct)
  case (1 call rnd mt base cap a slept)
  show ?case
  proof (cases "call a")
    case (Returned x)
    with "1.prems" show ?thesis
      by (auto simp add: with_retry_loop_returned)
  next
    case (Raised ex)
    show ?thesis
    proof (cases ex)
      case (APIError e)
      show ?thesis
      proof (cases "\<not> is_retryable_api_error e \<or> int a \<ge> mt")
        case True
        with "1.prems" Raised APIError show ?thesis
          by (auto simp add: with_retry_loop_api_raise)
      next
        case False
        let ?d = "min cap (base * 2 ^ (a - 1)) + uniform 0 (1 / 2) (rnd a)"
        have "with_retry_loop call rnd mt base cap a slept =
              with_retry_loop call rnd mt base cap (a + 1) (slept @ [?d])"
          by (rule with_retry_loop_api_retry[OF _ False]) (simp add: Raised APIError)
        with "1.prems"
        have rec: "with_retry_loop call rnd mt base cap (a + 1) (slept @ [?d]) = (res, slept', n)"
          by simp
        from "1.IH"(1)[OF Raised APIError False refl rec]
        have ih: "a + 1 \<le> n" 
          "slept' = (slept @ [?d]) @ map (\<lambda>k. case call k of
                                 Raised (APIError e) \<Rightarrow>
                                   min cap (base * 2 ^ (k - 1)) + uniform 0 (1 / 2) (rnd k)
                               | _ \<Rightarrow> 1 + uniform 0 (1 / 2) (rnd k)) [a + 1..<n]"
          "\<forall>k. a + 1 \<le> k \<and> k < n \<longrightarrow>
        (case call k of
           Returned x \<Rightarrow> False
         | Raised (APIError e) \<Rightarrow> is_retryable_api_error e \<and> int k < mt
         | Raised (OtherError e) \<Rightarrow> int k < min 3 mt)"
          "(case call n of
      Returned x \<Rightarrow> res = Inr x
    | Raised (APIError e) \<Rightarrow>
        res = Inl (APIError e) \<and> (\<not> is_retryable_api_error e \<or> mt \<le> int n)
    | Raised (OtherError e) \<Rightarrow> res = Inl (OtherError e) \<and> min 3 mt \<le> int n)"
          by blast+
        have up: "[a..<n] = a # [a + 1..<n]"
          using ih(1) by (simp add: upt_conv_Cons)
        have "\<forall>k. a \<le> k \<and> k < n \<longrightarrow>
        (case call k of
           Returned x \<Rightarrow> False
         | Raised (APIError e) \<Rightarrow> is_retryable_api_error e \<and> int k < mt
         | Raised (OtherError e) \<Rightarrow> int k < min 3 mt)"
        proof (intro allI impI)
          fix k assume k: "a \<le> k \<and> k < n"
          show "case call k of
           Returned x \<Rightarrow> False
         | Raised (APIError e) \<Rightarrow> is_retryable_api_error e \<and> int k < mt
         | Raised (OtherError e) \<Rightarrow> int k < min 3 mt"
          proof (cases "k = a")
            case True
            with False Raised APIError show ?thesis by simp
          next
            case False
            with k ih(3) show ?thesis by simp
          qed
        qed
        with ih up Raised APIError show ?thesis by simp
      qed
    next
      case (OtherError e)
      show ?thesis
      proof (cases "int a \<ge> min 3 mt")
        case True
        with "1.prems" Raised OtherError show ?thesis
          by (auto simp add: with_retry_loop_other_raise)
      next
        case False
        let ?d = "1 + uniform 0 (1 / 2) (rnd a)"
        have "with_retry_loop call rnd mt base cap a slept =
              with_retry_loop call rnd mt base cap (a + 1) (slept @ [?d])"
          by (rule with_retry_loop_other_retry[OF _ False]) (simp add: Raised OtherError)
        with "1.prems"
        have rec: "with_retry_loop call rnd mt base cap (a + 1) (slept @ [?d]) = (res, slept', n)"
          by simp
        from "1.IH"(2)[OF Raised OtherError False refl rec]
        have ih: "a + 1 \<le> n" 
          "slept' = (slept @ [?d]) @ map (\<lambda>k. case call k of
                                 Raised (APIError e) \<Rightarrow>
                                   min cap (base * 2 ^ (k - 1)) + uniform 0 (1 / 2) (rnd k)
                               | _ \<Rightarrow> 1 + uniform 0 (1 / 2) (rnd k)) [a + 1..<n]"
          "\<forall>k. a + 1 \<le> k \<and> k < n \<longrightarrow>
        (case call k of
           Returned x \<Rightarrow> False
         | Raised (APIError e) \<Rightarrow> is_retryable_api_error e \<and> int k < mt
         | Raised (OtherError e) \<Rightarrow> int k < min 3 mt)"
          "(case call n of
      Returned x \<Rightarrow> res = Inr x
    | Raised (APIError e) \<Rightarrow>
        res = Inl (APIError e) \<and> (\<not> is_retryable_api_error e \<or> mt \<le> int n)
    | Raised (OtherError e) \<Rightarrow> res = Inl (OtherError e) \<and> min 3 mt \<le> int n)"
          by blast+
        have up: "[a..<n] = a # [a + 1..<n]"
          using ih(1) by (simp add: upt_conv_Cons)
        have "\<forall>k. a \<le> k \<and> k < n \<longrightarrow>
        (case call k of
           Returned x \<Rightarrow> False
         | Raised (APIError e) \<Rightarrow> is_retryable_api_error e \<and> int k < mt
         | Raised (OtherError e) \<Rightarrow> int k < min 3 mt)"
        proof (intro allI impI)
          fix k assume k: "a \<le> k \<and> k < n"
          show "case call k of
           Returned x \<Rightarrow> False
         | Raised (APIError e) \<Rightarrow> is_retryable_api_error e \<and> int k < mt
         | Raised (OtherError e) \<Rightarrow> int k < min 3 mt"
          proof (cases "k = a")
            case True
            with False Raised OtherError show ?thesis by (simp add: min_def split: if_splits)
          next
            case False
            with k ih(3) show ?thesis by simp
          qed
        qed
        with ih up Raised OtherError show ?thesis by simp
      qed
    qed
  qed
qed





lemma with_retry_loop_api_run:
  "\<forall>j. a \<le> j \<and> j < k \<longrightarrow> (\<exists>e. call j = Raised (APIError e) \<and> is_retryable_api_error e) \<Longrightarrow>
   a \<le> k \<Longrightarrow> int k \<le> mt \<Longrightarrow>
   with_retry_loop call rnd mt base cap a slept =
   with_retry_loop call rnd mt base cap k
     (slept @ map (\<lambda>j. min cap (base * 2 ^ (j - 1)) + uniform 0 (1 / 2) (rnd j)) [a..<k])"
proof (induction "k - a" arbitrary: a slept)
  case 0
  then show ?case by simp
next
  case (Suc d)
  then have lt: "a < k" by simp
  with Suc.prems obtain e where e: "call a = Raised (APIError e)" "is_retryable_api_error e"
    by blast
  from lt Suc.prems have "\<not> (\<not> is_retryable_api_error e \<or> mt \<le> int a)"
    using e by simp
  from with_retry_loop_api_retry[where call = call and a = a, OF e(1) this]
  have step: "with_retry_loop call rnd mt base cap a slept =
      with_retry_loop call rnd mt base cap (a + 1)
        (slept @ [min cap (base * 2 ^ (a - 1)) + uniform 0 (1 / 2) (rnd a)])" .
  have d: "d = k - (a + 1)" using Suc.hyps(2) by simp
  have rest: "with_retry_loop call rnd mt base cap (a + 1)
        (slept @ [min cap (base * 2 ^ (a - 1)) + uniform 0 (1 / 2) (rnd a)]) =
      with_retry_loop call rnd mt base cap k
        ((slept @ [min cap (base * 2 ^ (a - 1)) + uniform 0 (1 / 2) (rnd a)]) @
          map (\<lambda>j. min cap (base * 2 ^ (j - 1)) + uniform 0 (1 / 2) (rnd j)) [a + 1..<k])"
    using Suc.prems lt by (intro Suc.hyps(1)[OF d]) simp_all
  have up: "[a..<k] = a # [a + 1..<k]"
    using lt by (simp add: upt_conv_Cons)
  show ?case unfolding step rest up by simp
qed




section \<open>Properties of the run-level restart\<close>

lemma main_loop_returned:
  "a \<le> MAX_RUN_TRIES \<Longrightarrow> run a = Returned x \<Longrightarrow> main_loop run rnd a slept = (Inr (), slept, a)"
  by (subst main_loop.simps) simp

lemma main_loop_api_fatal:
  "a \<le> MAX_RUN_TRIES \<Longrightarrow> run a = Raised (APIError e) \<Longrightarrow>
   \<not> (is_retryable_api_error e \<and> a < MAX_RUN_TRIES) \<Longrightarrow>
   main_loop run rnd a slept = (Inl (APIError e), slept, a)"
  by (subst main_loop.simps) auto

lemma main_loop_api_restart:
  "run a = Raised (APIError e) \<Longrightarrow> is_retryable_api_error e \<and> a < MAX_RUN_TRIES \<Longrightarrow>
   main_loop run rnd a slept =
   main_loop run rnd (a + 1) (slept @ [5 * of_nat a + uniform 0 (3 / 2) (rnd a)])"
  by (subst main_loop.simps) (simp add: Let_def)

lemma main_loop_other_fatal:
  "a \<le> MAX_RUN_TRIES \<Longrightarrow> run a = Raised (OtherError e) \<Longrightarrow> \<not> a < MAX_RUN_TRIES \<Longrightarrow>
   main_loop run rnd a slept = (Inl (OtherError e), slept, a)"
  by (subst main_loop.simps) simp

lemma main_loop_other_restart:
  "run a = Raised (OtherError e) \<Longrightarrow> a < MAX_RUN_TRIES \<Longrightarrow>
   main_loop run rnd a slept =
   main_loop run rnd (a + 1) (slept @ [3 + uniform 0 1 (rnd a)])"
  by (subst main_loop.simps) (simp add: Let_def)

lemma main_loop_trace:
  "main_loop run rnd a slept = (res, slept', n) \<Longrightarrow> a \<le> MAX_RUN_TRIES \<Longrightarrow>
   a \<le> n \<and> n \<le> MAX_RUN_TRIES \<and>
   slept' = slept @ map (\<lambda>k. case run k of
                                 Raised (APIError e) \<Rightarrow> 5 * of_nat k + uniform 0 (3 / 2) (rnd k)
                               | _ \<Rightarrow> 3 + uniform 0 1 (rnd k)) [a..<n] \<and>
   (\<forall>k. a \<le> k \<and> k < n \<longrightarrow>
        (case run k of
           Returned x \<Rightarrow> False
         | Raised (APIError e) \<Rightarrow> is_retryable_api_error e
         | Raised (OtherError e) \<Rightarrow> True)) \<and>
   (case run n of
      Returned x \<Rightarrow> res = Inr ()
    | Raised (APIError e) \<Rightarrow>
        res = Inl (APIError e) \<and> (\<not> is_retryable_api_error e \<or> n = MAX_RUN_TRIES)
    | Raised (OtherError e) \<Rightarrow> res = Inl (OtherError e) \<and> n = MAX_RUN_TRIES)"
proof (induction run rnd a slept rule: main_loop.induct)
  case (1 run rnd a slept)
  from "1.prems" have le: "\<not> MAX_RUN_TRIES < a" by simp
  show ?case
  proof (cases "run a")
    case (Returned x)
    with "1.prems" show ?thesis
      by (auto simp add: main_loop_returned)
  next
    case (Raised ex)
    show ?thesis
    proof (cases ex)
      case (APIError e)
      show ?thesis
      proof (cases "is_retryable_api_error e \<and> a < MAX_RUN_TRIES")
        case False
        with "1.prems" Raised APIError show ?thesis
          by (auto simp add: main_loop_api_fatal)
      next
        case True
        let ?d = "5 * of_nat a + uniform 0 (3 / 2) (rnd a)"
        have "main_loop run rnd a slept = main_loop run rnd (a + 1) (slept @ [?d])"
          by (rule main_loop_api_restart[where run = run and a = a, OF _ True])
             (simp add: Raised APIError)
        with "1.prems"
        have rec: "main_loop run rnd (a + 1) (slept @ [?d]) = (res, slept', n)"
          by simp
        from True have a1: "a + 1 \<le> MAX_RUN_TRIES" by simp
        note ih = "1.IH"(1)[OF le Raised APIError True refl rec a1]
        from ih have up: "[a..<n] = a # [a + 1..<n]"
          by (simp add: upt_conv_Cons)
        have "\<forall>k. a \<le> k \<and> k < n \<longrightarrow>
          (case run k of
             Returned x \<Rightarrow> False
           | Raised (APIError e) \<Rightarrow> is_retryable_api_error e
           | Raised (OtherError e) \<Rightarrow> True)"
        proof (intro allI impI)
          fix k assume k: "a \<le> k \<and> k < n"
          show "case run k of
             Returned x \<Rightarrow> False
           | Raised (APIError e) \<Rightarrow> is_retryable_api_error e
           | Raised (OtherError e) \<Rightarrow> True"
          proof (cases "k = a")
            case True
            with \<open>is_retryable_api_error e \<and> a < MAX_RUN_TRIES\<close> Raised APIError
            show ?thesis by simp
          next
            case False
            with k ih show ?thesis by simp
          qed
        qed
        with ih up Raised APIError show ?thesis by simp
      qed
    next
      case (OtherError e)
      show ?thesis
      proof (cases "a < MAX_RUN_TRIES")
        case False
        with "1.prems" Raised OtherError show ?thesis
          by (auto simp add: main_loop_other_fatal)
      next
        case True
        let ?d = "3 + uniform 0 1 (rnd a)"
        have "main_loop run rnd a slept = main_loop run rnd (a + 1) (slept @ [?d])"
          by (rule main_loop_other_restart[where run = run and a = a, OF _ True])
             (simp add: Raised OtherError)
        with "1.prems"
        have rec: "main_loop run rnd (a + 1) (slept @ [?d]) = (res, slept', n)"
          by simp
        from True have a1: "a + 1 \<le> MAX_RUN_TRIES" by simp
        note ih = "1.IH"(2)[OF le Raised OtherError True refl rec a1]
        from ih have up: "[a..<n] = a # [a + 1..<n]"
          by (simp add: upt_conv_Cons)
        have "\<forall>k. a \<le> k \<and> k < n \<longrightarrow>
          (case run k of
             Returned x \<Rightarrow> False
           | Raised (APIError e) \<Rightarrow> is_retryable_api_error e
           | Raised (OtherError e) \<Rightarrow> True)"
        proof (intro allI impI)
          fix k assume k: "a \<le> k \<and> k < n"
          show "case run k of
             Returned x \<Rightarrow> False
           | Raised (APIError e) \<Rightarrow> is_retryable_api_error e
           | Raised (OtherError e) \<Rightarrow> True"
          proof (cases "k = a")
            case True
            with Raised OtherError show ?thesis by simp
          next
            case False
            with k ih show ?thesis by simp
          qed
        qed
        with ih up Raised OtherError show ?thesis by simp
      qed
    qed
  qed
qed


text \<open>
  C3, as the specification states it, fails twice. A run that fails with an API error
  that is not retryable is fatal on the first run attempt: no restart, one run. And the
  delay between restarts after unexpected exceptions is flat (3 seconds plus jitter),
  not increasing.
\<close>

theorem main_restart_counterexample:
  "main (\<lambda>k. Raised (APIError ''APIError: [403]: Forbidden'')) (\<lambda>k. 0)
     = (Inl (APIError ''APIError: [403]: Forbidden''), [], 1) \<and>
   main (\<lambda>k. Raised (OtherError ''connection reset'')) (\<lambda>k. 0)
     = (Inl (OtherError ''connection reset''), [3, 3], 3)"
proof -
  have nr: "\<not> is_retryable_api_error ''APIError: [403]: Forbidden''"
    by (simp add: is_retryable_api_error_def)
  have a: "main (\<lambda>k. Raised (APIError ''APIError: [403]: Forbidden'')) (\<lambda>k. 0)
     = (Inl (APIError ''APIError: [403]: Forbidden''), [], 1)"
    unfolding main_def
    by (rule main_loop_api_fatal) (simp_all add: MAX_RUN_TRIES_def nr)
  have b: "main (\<lambda>k. Raised (OtherError ''connection reset'')) (\<lambda>k. 0)
     = (Inl (OtherError ''connection reset''), [3, 3], 3)"
    by (simp add: main_def main_loop_other_restart main_loop_other_fatal MAX_RUN_TRIES_def
          uniform_def)
  from a b show ?thesis by simp
qed

text \<open>
  C3, amended: \<open>main\<close> makes between one and three runs, with one sleep between two
  consecutive runs. A run \<open>a < 3\<close> that fails with a retryable API error is followed by
  a restart after \<open>5 * a\<close> seconds plus a jitter in \<open>[0, 3/2]\<close>; a run \<open>a < 3\<close> that fails
  with an unexpected exception is followed by a restart after 3 seconds plus a jitter in
  \<open>[0, 1]\<close>. A failure of the third run, and an API error that is not retryable on any
  run, is fatal: it ends \<open>main\<close>, which raises that very error. These are the only fatal
  failures.
\<close>

theorem main_restart_policy:
  assumes run: "main run_once rnd = (res, slept, n)"
      and rnd: "\<forall>k. 0 \<le> rnd k \<and> rnd k \<le> 1"
  shows "1 \<le> n \<and> n \<le> 3 \<and> length slept = n - 1 \<and>
    (\<forall>a. 1 \<le> a \<and> a < n \<longrightarrow>
       (\<exists>e. run_once a = Raised (APIError e) \<and> is_retryable_api_error e \<and>
            (\<exists>j. 0 \<le> j \<and> j \<le> 3 / 2 \<and> slept ! (a - 1) = 5 * of_nat a + j)) \<or>
       (\<exists>e. run_once a = Raised (OtherError e) \<and>
            (\<exists>j. 0 \<le> j \<and> j \<le> 1 \<and> slept ! (a - 1) = 3 + j))) \<and>
    (\<forall>a ex. 1 \<le> a \<and> a \<le> n \<and> a < 3 \<and> run_once a = Raised ex \<and>
            (\<forall>e. ex = APIError e \<longrightarrow> is_retryable_api_error e) \<longrightarrow> a < n) \<and>
    (\<forall>a ex. 1 \<le> a \<and> a \<le> n \<and> run_once a = Raised ex \<and>
            (a = 3 \<or> (\<exists>e. ex = APIError e \<and> \<not> is_retryable_api_error e)) \<longrightarrow>
        a = n \<and> res = Inl ex) \<and>
    (\<forall>ex. res = Inl ex \<longrightarrow>
        run_once n = Raised ex \<and>
        (n = 3 \<or> (\<exists>e. ex = APIError e \<and> \<not> is_retryable_api_error e)))"
proof -
  let ?f = "\<lambda>k. case run_once k of
                  Raised (APIError e) \<Rightarrow> 5 * of_nat k + uniform 0 (3 / 2) (rnd k)
                | _ \<Rightarrow> 3 + uniform 0 1 (rnd k)"
  from run have loop: "main_loop run_once rnd 1 [] = (res, slept, n)"
    by (simp add: main_def)
  have "1 \<le> MAX_RUN_TRIES" by (simp add: MAX_RUN_TRIES_def)
  note t = main_loop_trace[OF loop this, unfolded MAX_RUN_TRIES_def]
  from t have n1: "1 \<le> n" and n3: "n \<le> 3" by simp_all
  from t have sl: "slept = map ?f [1..<n]" by simp
  from t have retried: "\<And>k. 1 \<le> k \<Longrightarrow> k < n \<Longrightarrow>
        (case run_once k of
           Returned x \<Rightarrow> False
         | Raised (APIError e) \<Rightarrow> is_retryable_api_error e
         | Raised (OtherError e) \<Rightarrow> True)"
    by blast
  from t have final: "case run_once n of
      Returned x \<Rightarrow> res = Inr ()
    | Raised (APIError e) \<Rightarrow>
        res = Inl (APIError e) \<and> (\<not> is_retryable_api_error e \<or> n = 3)
    | Raised (OtherError e) \<Rightarrow> res = Inl (OtherError e) \<and> n = 3"
    by blast
  have len: "length slept = n - 1" by (simp add: sl)
  have delays: "(\<exists>e. run_once a = Raised (APIError e) \<and> is_retryable_api_error e \<and>
            (\<exists>j. 0 \<le> j \<and> j \<le> 3 / 2 \<and> slept ! (a - 1) = 5 * of_nat a + j)) \<or>
       (\<exists>e. run_once a = Raised (OtherError e) \<and>
            (\<exists>j. 0 \<le> j \<and> j \<le> 1 \<and> slept ! (a - 1) = 3 + j))"
    if a: "1 \<le> a" "a < n" for a
  proof -
    from a have nth: "slept ! (a - 1) = ?f a"
      by (simp add: sl split: outcome.splits pyexc.splits)
    from rnd have j1: "0 \<le> uniform 0 (3 / 2) (rnd a) \<and> uniform 0 (3 / 2) (rnd a) \<le> 3 / 2"
      by (intro uniform_bounds) simp_all
    from rnd have j2: "0 \<le> uniform 0 1 (rnd a) \<and> uniform 0 1 (rnd a) \<le> 1"
      by (intro uniform_bounds) simp_all
    show ?thesis
    proof (cases "run_once a")
      case (Returned x)
      with retried[OF a] show ?thesis by simp
    next
      case (Raised ex)
      show ?thesis
      proof (cases ex)
        case (APIError e)
        with Raised retried[OF a] nth j1 show ?thesis by auto
      next
        case (OtherError e)
        with Raised nth j2 show ?thesis by auto
      qed
    qed
  qed
  have restarted: "a < n"
    if a: "1 \<le> a" "a \<le> n" "a < 3" "run_once a = Raised ex"
          "\<forall>e. ex = APIError e \<longrightarrow> is_retryable_api_error e" for a ex
  proof -
    have "a \<noteq> n" using final a by (cases ex) auto
    with a show ?thesis by simp
  qed
  have fatal: "a = n \<and> res = Inl ex"
    if a: "1 \<le> a" "a \<le> n" "run_once a = Raised ex"
          "a = 3 \<or> (\<exists>e. ex = APIError e \<and> \<not> is_retryable_api_error e)" for a ex
  proof -
    have "\<not> a < n"
    proof
      assume lt: "a < n"
      from retried[OF a(1) lt] a(3,4) lt n3 show False by auto
    qed
    with a have "a = n" by simp
    with final a(3) show ?thesis by (cases ex) auto
  qed
  have raised: "run_once n = Raised ex \<and>
        (n = 3 \<or> (\<exists>e. ex = APIError e \<and> \<not> is_retryable_api_error e))"
    if "res = Inl ex" for ex
    using final that by (auto split: outcome.splits pyexc.splits)
  from n1 n3 len delays restarted fatal raised show ?thesis by blast
qed

theorem main_restart_policy_witness:
  "main (\<lambda>k. if k = 1 then Raised (APIError ''APIError: [503]: unavailable'')
             else if k = 2 then Raised (OtherError ''connection reset'')
             else Raised (APIError ''APIError: [429]: quota'')) (\<lambda>k. 1)
     = (Inl (APIError ''APIError: [429]: quota''), [13 / 2, 4], 3) \<and>
   length [13 / 2, 4 :: rat] = 3 - 1"
proof -
  let ?run = "\<lambda>k::nat. if k = 1 then Raised (APIError ''APIError: [503]: unavailable'')
             else if k = 2 then Raised (OtherError ''connection reset'')
             else (Raised (APIError ''APIError: [429]: quota'') :: unit outcome)"
  have r: "is_retryable_api_error ''APIError: [503]: unavailable''"
    by (simp add: is_retryable_api_error_def)
  have run: "main ?run (\<lambda>k. 1) = (Inl (APIError ''APIError: [429]: quota''), [13 / 2, 4], 3)"
    by (simp add: main_def main_loop_api_restart main_loop_other_restart main_loop_api_fatal
          MAX_RUN_TRIES_def uniform_def r)
  from main_restart_policy[OF run] have "length [13 / 2, 4 :: rat] = 3 - 1"
    by simp
  with run show ?thesis by blast
qed

section \<open>Properties of the chunked data write\<close>

lemma write_chunks_step:
  "i < length m \<Longrightarrow>
   write_chunks m i s =
     (s, s + int (min (length m - i) BATCH_ROWS) - 1, take BATCH_ROWS (drop i m))
       # write_chunks m (i + min (length m - i) BATCH_ROWS)
           (s + int (min (length m - i) BATCH_ROWS))"
  by (subst write_chunks.simps) (simp add: Let_def)

lemma write_chunks_done: "\<not> i < length m \<Longrightarrow> write_chunks m i s = []"
  by (subst write_chunks.simps) simp

lemma write_chunks_length:
  "length (write_chunks m i s) = (length m - i + (BATCH_ROWS - 1)) div BATCH_ROWS"
proof (induction m i s rule: write_chunks.induct)
  case (1 m i s)
  show ?case
  proof (cases "i < length m")
    case False
    then show ?thesis by (simp add: write_chunks_done BATCH_ROWS_def)
  next
    case True
    let ?c = "min (length m - i) BATCH_ROWS"
    have chunk: "length (take BATCH_ROWS (drop i m)) = ?c" by simp
    have ih: "length (write_chunks m (i + ?c) (s + int ?c))
                = (length m - (i + ?c) + (BATCH_ROWS - 1)) div BATCH_ROWS"
      using "1.IH"[OF True refl refl] by (simp add: chunk)
    define L where "L = length m - i"
    have L: "1 \<le> L" using True by (simp add: L_def)
    have arith: "Suc ((L - min L 3000 + 2999) div 3000) = (L + 2999) div 3000"
    proof (cases "L \<le> 3000")
      case True
      have "(L + 2999) div 3000 = 1"
        using L True by (intro div_nat_eqI) simp_all
      with True show ?thesis by simp
    next
      case False
      then have "L + 2999 = (L - 3000 + 2999) + 3000" by simp
      then have "(L + 2999) div 3000 = Suc ((L - 3000 + 2999) div 3000)"
        by simp
      with False show ?thesis by simp
    qed
    have r: "length m - (i + ?c) = L - min L 3000"
      by (simp add: L_def BATCH_ROWS_def)
    have "length (write_chunks m i s)
            = Suc (length (write_chunks m (i + ?c) (s + int ?c)))"
      by (simp only: write_chunks_step[OF True] list.size length_Cons)
    also have "\<dots> = Suc ((L - min L 3000 + 2999) div 3000)"
      by (simp only: ih r) (simp add: BATCH_ROWS_def)
    finally have len: "length (write_chunks m i s) = Suc ((L - min L 3000 + 2999) div 3000)" .
    have goal: "(length m - i + (BATCH_ROWS - 1)) div BATCH_ROWS = (L + 2999) div 3000"
      by (simp add: L_def BATCH_ROWS_def)
    show ?thesis by (simp only: len arith goal)
  qed
qed

lemma write_chunks_rows:
  "i \<le> length m \<Longrightarrow>
   concat (map rows_of (write_chunks m i s)) = [s .. s + int (length m - i) - 1]"
proof (induction m i s rule: write_chunks.induct)
  case (1 m i s)
  show ?case
  proof (cases "i < length m")
    case False
    with "1.prems" show ?thesis by (simp add: write_chunks_done)
  next
    case True
    let ?c = "min (length m - i) BATCH_ROWS"
    have chunk: "length (take BATCH_ROWS (drop i m)) = ?c" by simp
    have c1: "1 \<le> ?c" using True by (simp add: BATCH_ROWS_def)
    have le: "i + ?c \<le> length m" using True by simp
    have ih: "concat (map rows_of (write_chunks m (i + ?c) (s + int ?c)))
                = [s + int ?c .. s + int ?c + int (length m - (i + ?c)) - 1]"
      using "1.IH"[OF True refl refl] le by (simp add: chunk)
    have e: "s + int ?c + int (length m - (i + ?c)) - 1 = s + int (length m - i) - 1"
      by simp
    have split: "[s .. s + int (length m - i) - 1]
                  = [s .. s + int ?c - 1] @ [s + int ?c - 1 + 1 .. s + int (length m - i) - 1]"
      using c1 True by (intro upto_split2) simp_all
    have "concat (map rows_of (write_chunks m i s))
            = rows_of (s, s + int ?c - 1, take BATCH_ROWS (drop i m))
                @ concat (map rows_of (write_chunks m (i + ?c) (s + int ?c)))"
      by (simp only: write_chunks_step[OF True] list.map concat.simps)
    also have "\<dots> = [s .. s + int ?c - 1] @ [s + int ?c - 1 + 1 .. s + int (length m - i) - 1]"
      by (simp only: ih e rows_of_def fst_conv snd_conv) simp
    also have "\<dots> = [s .. s + int (length m - i) - 1]"
      by (simp only: split)
    finally show ?thesis .
  qed
qed

lemma write_chunks_values:
  "concat (map (\<lambda>w. snd (snd w)) (write_chunks m i s)) = drop i m"
proof (induction m i s rule: write_chunks.induct)
  case (1 m i s)
  show ?case
  proof (cases "i < length m")
    case False
    then show ?thesis by (simp add: write_chunks_done)
  next
    case True
    let ?c = "min (length m - i) BATCH_ROWS"
    have chunk: "length (take BATCH_ROWS (drop i m)) = ?c" by simp
    have ih: "concat (map (\<lambda>w. snd (snd w)) (write_chunks m (i + ?c) (s + int ?c)))
                = drop (i + ?c) m"
      using "1.IH"[OF True refl refl] by (simp add: chunk)
    have "take BATCH_ROWS (drop i m) @ drop (i + ?c) m = drop i m"
      by (metis add.commute append_take_drop_id drop_drop min.commute take_all_iff
            min_def nat_le_linear take_all length_drop)
    then show ?thesis
      using True by (simp add: write_chunks_step ih)
  qed
qed

lemma write_chunks_each:
  "w \<in> set (write_chunks m i s) \<Longrightarrow>
   fst w \<le> fst (snd w) \<and> length (snd (snd w)) \<le> BATCH_ROWS \<and>
   int (length (snd (snd w))) = fst (snd w) - fst w + 1"
proof (induction m i s rule: write_chunks.induct)
  case (1 m i s)
  show ?case
  proof (cases "i < length m")
    case False
    with "1.prems" show ?thesis by (simp add: write_chunks_done)
  next
    case True
    let ?c = "min (length m - i) BATCH_ROWS"
    have chunk: "length (take BATCH_ROWS (drop i m)) = ?c" by simp
    have c1: "1 \<le> ?c" using True by (simp add: BATCH_ROWS_def)
    from "1.prems" True
    consider "w = (s, s + int ?c - 1, take BATCH_ROWS (drop i m))"
      | "w \<in> set (write_chunks m (i + ?c) (s + int ?c))"
      by (auto simp add: write_chunks_step)
    then show ?thesis
    proof cases
      case 1
      with c1 True show ?thesis by simp
    next
      case 2
      then show ?thesis
        using "1.IH"[OF True refl refl] by (simp add: chunk)
    qed
  qed
qed


lemma write_chunks_start: "w \<in> set (write_chunks m i s) \<Longrightarrow> s \<le> fst w"
proof (induction m i s rule: write_chunks.induct)
  case (1 m i s)
  show ?case
  proof (cases "i < length m")
    case False
    with "1.prems" show ?thesis by (simp add: write_chunks_done)
  next
    case True
    let ?c = "min (length m - i) BATCH_ROWS"
    have chunk: "length (take BATCH_ROWS (drop i m)) = ?c" by simp
    from "1.prems" True
    consider "w = (s, s + int ?c - 1, take BATCH_ROWS (drop i m))"
      | "w \<in> set (write_chunks m (i + ?c) (s + int ?c))"
      by (auto simp add: write_chunks_step)
    then show ?thesis
    proof cases
      case 1
      then show ?thesis by simp
    next
      case 2
      then have "s + int ?c \<le> fst w"
        using "1.IH"[OF True refl refl] by (simp add: chunk)
      then show ?thesis by simp
    qed
  qed
qed

lemma write_chunks_ascending:
  "sorted_wrt (\<lambda>w w'. fst (snd w) < fst w') (write_chunks m i s)"
proof (induction m i s rule: write_chunks.induct)
  case (1 m i s)
  show ?case
  proof (cases "i < length m")
    case False
    then show ?thesis by (simp add: write_chunks_done)
  next
    case True
    let ?c = "min (length m - i) BATCH_ROWS"
    have chunk: "length (take BATCH_ROWS (drop i m)) = ?c" by simp
    have ih: "sorted_wrt (\<lambda>w w'. fst (snd w) < fst w') (write_chunks m (i + ?c) (s + int ?c))"
      using "1.IH"[OF True refl refl] by (simp add: chunk)
    have "s + int ?c - 1 < fst w" if "w \<in> set (write_chunks m (i + ?c) (s + int ?c))" for w
      using write_chunks_start[OF that] by simp
    with ih show ?thesis
      by (simp add: write_chunks_step[OF True])
  qed
qed

lemma ceiling_div_3000: "int ((n + 2999) div 3000) = \<lceil>(of_nat n :: rat) / 3000\<rceil>"
proof -
  define k where "k = (n + 2999) div 3000"
  define r where "r = (n + 2999) mod 3000"
  have e: "n + 2999 = k * 3000 + r" by (simp add: k_def r_def)
  have r: "r < 3000" by (simp add: r_def)
  have A: "n \<le> 3000 * k" using e r by linarith
  have B: "3000 * k < n + 3000" using e r by linarith
  have "(of_nat n :: rat) \<le> of_nat (3000 * k)" using A by (simp only: of_nat_le_iff)
  then have A': "(of_nat n :: rat) \<le> 3000 * of_nat k" by simp
  have "(of_nat (3000 * k) :: rat) < of_nat (n + 3000)" using B by (simp only: of_nat_less_iff)
  then have B': "3000 * of_nat k < (of_nat n :: rat) + 3000" by simp
  have "\<lceil>(of_nat n :: rat) / 3000\<rceil> = int k"
  proof (rule ceiling_unique)
    show "of_int (int k) - 1 < (of_nat n :: rat) / 3000"
      using B' by (simp add: field_simps)
    show "(of_nat n :: rat) / 3000 \<le> of_int (int k)"
      using A' by (simp add: field_simps)
  qed
  then show ?thesis by (simp add: k_def)
qed


text \<open>
  C5: for a payload of \<open>N\<close> data rows the write loop issues \<open>ceil(N / 3000)\<close> writes.
  Each write covers a non-empty range of at most 3000 rows and carries as many rows as
  its range has; each range ends before the next one begins (ascending, disjoint);
  the rows of the ranges, put one after the other in the order of the writes, are
  exactly \<open>3, 4, ..., N + 2\<close> (contiguous, with union the rows 3 to \<open>N + 2\<close>); and the
  rows written, in order, are the payload. For \<open>N = 7000\<close> the ranges are 3 to 3002,
  3003 to 6002 and 6003 to 7002.
\<close>

theorem chunked_write_partition:
  "int (length (data_writes m)) = \<lceil>(of_nat (length m) :: rat) / 3000\<rceil> \<and>
   sorted_wrt (\<lambda>w w'. fst (snd w) < fst w') (data_writes m) \<and>
   concat (map rows_of (data_writes m)) = [3 .. int (length m) + 2] \<and>
   (\<Union>w \<in> set (data_writes m). {fst w .. fst (snd w)}) = {3 .. int (length m) + 2} \<and>
   (\<forall>w \<in> set (data_writes m).
      fst w \<le> fst (snd w) \<and> length (snd (snd w)) \<le> 3000 \<and>
      int (length (snd (snd w))) = fst (snd w) - fst w + 1) \<and>
   concat (map (\<lambda>w. snd (snd w)) (data_writes m)) = m \<and>
   (length m = 7000 \<longrightarrow>
      map (\<lambda>w. (fst w, fst (snd w))) (data_writes m) = [(3, 3002), (3003, 6002), (6003, 7002)])"
proof -
  have dw: "data_writes m = write_chunks m 0 3"
    by (cases "m = []") (simp_all add: data_writes_def DEST_DATA_START_ROW_def write_chunks_done)
  have "length (data_writes m) = (length m + 2999) div 3000"
    using write_chunks_length[of m 0 3] by (simp add: dw BATCH_ROWS_def)
  then have n: "int (length (data_writes m)) = \<lceil>(of_nat (length m) :: rat) / 3000\<rceil>"
    by (simp only: ceiling_div_3000)
  have asc: "sorted_wrt (\<lambda>w w'. fst (snd w) < fst w') (data_writes m)"
    by (simp only: dw write_chunks_ascending)
  have e: "3 + int (length m - 0) - 1 = int (length m) + 2" by simp
  have rows: "concat (map rows_of (data_writes m)) = [3 .. int (length m) + 2]"
    using write_chunks_rows[of 0 m 3] by (simp only: dw e)
  have "(\<Union>w \<in> set (data_writes m). {fst w .. fst (snd w)})
          = set (concat (map rows_of (data_writes m)))"
    by (simp add: rows_of_def)
  then have un: "(\<Union>w \<in> set (data_writes m). {fst w .. fst (snd w)}) = {3 .. int (length m) + 2}"
    by (simp only: rows set_upto)
  have each: "\<forall>w \<in> set (data_writes m).
      fst w \<le> fst (snd w) \<and> length (snd (snd w)) \<le> 3000 \<and>
      int (length (snd (snd w))) = fst (snd w) - fst w + 1"
    using write_chunks_each[of _ m 0 3] by (simp add: dw BATCH_ROWS_def)
  have vals: "concat (map (\<lambda>w. snd (snd w)) (data_writes m)) = m"
    using write_chunks_values[of m 0 3] by (simp add: dw)
  have ex: "map (\<lambda>w. (fst w, fst (snd w))) (data_writes m) = [(3, 3002), (3003, 6002), (6003, 7002)]"
    if len: "length m = 7000"
  proof -
    have s0: "write_chunks m 0 3 = (3, 3002, take BATCH_ROWS (drop 0 m)) # write_chunks m 3000 3003"
      using write_chunks_step[of 0 m 3] by (simp add: len BATCH_ROWS_def)
    have s1: "write_chunks m 3000 3003
                = (3003, 6002, take BATCH_ROWS (drop 3000 m)) # write_chunks m 6000 6003"
      using write_chunks_step[of 3000 m 3003] by (simp add: len BATCH_ROWS_def)
    have s2: "write_chunks m 6000 6003
                = (6003, 7002, take BATCH_ROWS (drop 6000 m)) # write_chunks m 7000 7003"
      using write_chunks_step[of 6000 m 6003] by (simp add: len BATCH_ROWS_def)
    have s3: "write_chunks m 7000 7003 = []"
      by (rule write_chunks_done) (simp add: len)
    show ?thesis by (simp only: dw s0 s1 s2 s3 list.map fst_conv snd_conv)
  qed
  from n asc rows un each vals ex show ?thesis by blast
qed


theorem chunked_write_partition_witness:
  "map (\<lambda>w. (fst w, fst (snd w))) (data_writes (replicate 7000 [PStr ''x'']))
     = [(3, 3002), (3003, 6002), (6003, 7002)] \<and>
   int (length (data_writes (replicate 7000 [PStr ''x'']))) = 3"
proof -
  note t = chunked_write_partition[of "replicate 7000 [PStr ''x'']"]
  have len: "length (replicate 7000 [PStr ''x'']) = 7000" by simp
  from t len have a: "map (\<lambda>w. (fst w, fst (snd w))) (data_writes (replicate 7000 [PStr ''x'']))
     = [(3, 3002), (3003, 6002), (6003, 7002)]"
    by blast
  have c: "\<lceil>(of_nat 7000 :: rat) / 3000\<rceil> = 3" by (simp add: ceiling_eq_iff)
  from t have "int (length (data_writes (replicate 7000 [PStr ''x''])))
                 = \<lceil>(of_nat (length (replicate 7000 [PStr ''x''])) :: rat) / 3000\<rceil>"
    by blast
  then have b: "int (length (data_writes (replicate 7000 [PStr ''x'']))) = 3"
    by (simp only: len c)
  from a b show ?thesis by blast
qed

section \<open>Totality of the coercers\<close>

text \<open>
  The text that the currency coercer hands to \<open>float\<close> holds digits, dots and minus
  signs only, the alphabet \<open>float_of_str\<close> is written for.
\<close>

lemma float_argument_alphabet:
  "set (normalize_separators (keep_currency_chars s)) \<subseteq> set ''0123456789.-''"
  by (auto simp add: normalize_separators_def keep_currency_chars_def commas_to_dots_def
        remove_dots_def split: if_splits)

lemma dbl_limit_large: "(10000000 :: rat) < dbl_limit"
  by (simp add: dbl_limit_def)

lemma float_of_int_small: "\<bar>n\<bar> < 10000000 \<Longrightarrow> float_of_int n = Inr (Fl (of_int n))"
proof -
  assume "\<bar>n\<bar> < 10000000"
  then have "(of_int \<bar>n\<bar> :: rat) < of_int 10000000" by (simp only: of_int_less_iff)
  then have "\<bar>of_int n :: rat\<bar> < 10000000" by simp
  with dbl_limit_large have "\<not> dbl_limit \<le> \<bar>of_int n :: rat\<bar>" by linarith
  then show ?thesis by (simp add: float_of_int_def)
qed

lemma sum_list_take_le: "sum_list (take n xs) \<le> sum_list xs" for xs :: "nat list"
proof -
  have "sum_list xs = sum_list (take n xs) + sum_list (drop n xs)"
    by (metis append_take_drop_id sum_list_append)
  then show ?thesis by simp
qed

lemma days_in_month_le: "1 \<le> m \<Longrightarrow> m \<le> 12 \<Longrightarrow> days_in_month y m \<le> 31"
proof -
  assume m: "1 \<le> m" "m \<le> 12"
  let ?L = "[31, 28, 31, 30, 31, 30, 31, 31, 30, 31, 30, 31 :: nat]"
  have "\<forall>x \<in> set ?L. x \<le> 31" by simp
  moreover have "?L ! (m - 1) \<in> set ?L" using m by (intro nth_mem) simp
  ultimately have "?L ! (m - 1) \<le> 31" by blast
  then show ?thesis by (simp add: days_in_month_def)
qed

lemma days_before_year_bounds:
  "1 \<le> y \<Longrightarrow> y \<le> 9999 \<Longrightarrow> 0 \<le> days_before_year y \<and> days_before_year y \<le> 3669266"
proof -
  assume y: "1 \<le> y" "y \<le> 9999"
  define y1 where "y1 = int y - 1"
  have r: "0 \<le> y1" "y1 \<le> 9998" using y by (simp_all add: y1_def)
  have a: "0 \<le> y1 div 4" "0 \<le> y1 div 100" "0 \<le> y1 div 400"
    using r by (simp_all add: pos_imp_zdiv_nonneg_iff)
  have b: "y1 div 4 \<le> y1" "y1 div 100 \<le> y1" "y1 div 400 \<le> y1"
    using r by (simp_all add: int_div_le_self)
  have "days_before_year y = y1 * 365 + y1 div 4 - y1 div 100 + y1 div 400"
    by (simp add: days_before_year_def y1_def Let_def)
  with r a b show ?thesis by linarith
qed

lemma toordinal_bounds:
  assumes "valid_date (year d) (month d) (day d)"
  shows "0 \<le> toordinal d \<and> toordinal d \<le> 3700000"
proof -
  from assms have y: "1 \<le> year d" "year d \<le> 9999" and m: "1 \<le> month d" "month d \<le> 12"
    and dd: "day d \<le> days_in_month (year d) (month d)"
    by (simp_all add: valid_date_def)
  note by' = days_before_year_bounds[OF y]
  have "sum_list (take (month d - 1) [31, 28, 31, 30, 31, 30, 31, 31, 30, 31, 30, 31 :: nat])
          \<le> sum_list [31, 28, 31, 30, 31, 30, 31, 31, 30, 31, 30, 31 :: nat]"
    by (rule sum_list_take_le)
  then have bm: "0 \<le> days_before_month (year d) (month d)"
       "days_before_month (year d) (month d) \<le> 366"
    by (simp_all add: days_before_month_def)
  from dd days_in_month_le[OF m] have "day d \<le> 31" by (rule order_trans)
  then have bd: "int (day d) \<le> 31" "0 \<le> int (day d)" by simp_all
  from by' bm bd show ?thesis by (simp add: toordinal_def)
qed

lemma serial_of_date_total:
  assumes "valid_date (year d) (month d) (day d)"
  shows "\<exists>f. serial_of_date d = Inr (PFloat f)"
proof -
  have e: "toordinal epoch = 693594"
    by (simp add: epoch_def toordinal_def days_before_year_def days_before_month_def is_leap_def)
  from toordinal_bounds[OF assms] e have "\<bar>toordinal d - toordinal epoch\<bar> < 10000000"
    by linarith
  then show ?thesis by (simp add: serial_of_date_def float_of_int_small)
qed

lemma strptime_valid:
  "strptime s fmt = Some d \<Longrightarrow> valid_date (year d) (month d) (day d)"
  by (auto simp add: strptime_def Let_def split: list.splits prod.splits if_splits)

lemma try_formats_valid:
  "try_formats s fs = Some d \<Longrightarrow> valid_date (year d) (month d) (day d)"
  by (induction fs) (auto split: option.splits dest: strptime_valid)

text \<open>
  C9, as the specification states it, fails for \<open>clean_currency\<close>: the cast
  \<open>float(value)\<close> of the numeric branch is outside the \<open>try\<close>, and on an integer beyond
  the binary64 range, such as \<open>2^1024\<close>, it raises \<open>OverflowError\<close>.
\<close>

theorem clean_currency_overflow_counterexample:
  "clean_currency (PInt (2 ^ 1024)) = Inl OverflowError"
  by (simp add: clean_currency_def float_of_int_def dbl_limit_def)

text \<open>
  C9, amended: on \<open>None\<close>, a boolean, a float, a text, a date, a datetime, and an
  integer of magnitude below \<open>2^1024 - 2^970\<close>, \<open>clean_currency\<close> returns a float or the
  empty text and never raises; on every such value, and on every integer whatsoever,
  \<open>to_gs_serial\<close> returns a number or the empty text and never raises. In particular
  no text, however malformed, makes either coercer raise.
\<close>

theorem coercers_total:
  "((\<forall>n. v = PInt n \<longrightarrow> \<bar>of_int n\<bar> < dbl_limit) \<longrightarrow>
      (\<exists>r. clean_currency v = Inr r \<and> (r = PStr [] \<or> (\<exists>f. r = PFloat f)))) \<and>
   (date_fields_valid v \<longrightarrow>
      (\<exists>r. to_gs_serial v = Inr r \<and> (r = PStr [] \<or> is_number r)))"
proof -
  have ct: "clean_currency_text t = PStr [] \<or> (\<exists>f. clean_currency_text t = PFloat f)" for t
    by (simp add: clean_currency_text_def Let_def split: option.splits)
  have cc: "\<exists>r. clean_currency v = Inr r \<and> (r = PStr [] \<or> (\<exists>f. r = PFloat f))"
    if small: "\<forall>n. v = PInt n \<longrightarrow> \<bar>of_int n\<bar> < dbl_limit"
  proof (cases v)
    case PNone
    then show ?thesis by (simp add: clean_currency_def)
  next
    case (PBool b)
    then show ?thesis
      by (simp add: clean_currency_def float_of_int_def dbl_limit_def)
  next
    case (PInt n)
    with small have "\<not> dbl_limit \<le> \<bar>of_int n :: rat\<bar>" by simp
    with PInt show ?thesis by (simp add: clean_currency_def float_of_int_def)
  next
    case (PFloat f)
    then show ?thesis by (simp add: clean_currency_def)
  next
    case (PStr t)
    with ct[of t] show ?thesis by (auto simp add: clean_currency_def)
  next
    case (PDate d)
    with ct[of "str_date d"] show ?thesis by (auto simp add: clean_currency_def)
  next
    case (PDateTime d t)
    with ct[of "str_datetime d t"] show ?thesis by (auto simp add: clean_currency_def)
  qed
  have gs: "\<exists>r. to_gs_serial v = Inr r \<and> (r = PStr [] \<or> is_number r)"
    if ok: "date_fields_valid v"
  proof (cases v)
    case PNone
    then show ?thesis by (simp add: to_gs_serial_def)
  next
    case (PBool b)
    then show ?thesis by (simp add: to_gs_serial_def)
  next
    case (PInt n)
    then show ?thesis by (simp add: to_gs_serial_def)
  next
    case (PFloat f)
    then show ?thesis by (simp add: to_gs_serial_def)
  next
    case (PStr t)
    show ?thesis
    proof (cases "try_formats (py_strip t) date_formats")
      case None
      with PStr show ?thesis by (simp add: to_gs_serial_def Let_def)
    next
      case (Some d)
      from serial_of_date_total[OF try_formats_valid[OF Some]]
      obtain f where "serial_of_date d = Inr (PFloat f)" by blast
      with PStr Some show ?thesis by (simp add: to_gs_serial_def Let_def)
    qed
  next
    case (PDate d)
    with ok have "valid_date (year d) (month d) (day d)" by simp
    from serial_of_date_total[OF this]
    obtain f where "serial_of_date d = Inr (PFloat f)" by blast
    with PDate show ?thesis by (simp add: to_gs_serial_def)
  next
    case (PDateTime d t)
    with ok have "valid_date (year d) (month d) (day d)" by simp
    from serial_of_date_total[OF this]
    obtain f where "serial_of_date d = Inr (PFloat f)" by blast
    with PDateTime show ?thesis by (simp add: to_gs_serial_def)
  qed
  from cc gs show ?thesis by blast
qed

theorem coercers_total_witness:
  "(\<exists>r. clean_currency (PInt 1500) = Inr r \<and> (r = PStr [] \<or> (\<exists>f. r = PFloat f))) \<and>
   (\<exists>r. to_gs_serial (PDate (Date 2024 2 29)) = Inr r \<and> (r = PStr [] \<or> is_number r))"
proof -
  have a: "\<forall>n. PInt 1500 = PInt n \<longrightarrow> \<bar>of_int n :: rat\<bar> < dbl_limit"
    by (simp add: dbl_limit_def)
  have b: "date_fields_valid (PDate (Date 2024 2 29))"
    by (simp add: valid_date_def days_in_month_def is_leap_def)
  from coercers_total[of "PInt 1500"] a coercers_total[of "PDate (Date 2024 2 29)"] b
  show ?thesis by blast
qed

section \<open>Properties of the normalization of the columns read\<close>

lemma flat_length: "length (flat raw) = length raw"
  by (simp add: flat_def)

text \<open>
  The coercion loop reads a column through \<open>cell_at\<close>, so it sees the column as if it
  were padded with empty texts.
\<close>

lemma cell_at_padded: "cell_at (col @ replicate n (PStr [])) r = cell_at col r"
  by (simp add: cell_at_def nth_append)

text \<open>
  C2 does not hold of the code: the normalized column is as long as the range the
  remote read returned, not as long as the scan limit. An empty row becomes the empty
  text, and nothing is appended. With three rows returned for each of the 23 ranges
  every column of \<open>data_cols\<close> has three entries.
\<close>

theorem normalization_keeps_returned_length:
  "length (flat raw) = length raw \<and>
   length (data_cols (replicate 23 [[PStr ''a''], [], [PInt 7]])) = 23 \<and>
   list_all (\<lambda>(src_col, col). col = [PStr ''a'', PStr [], PInt 7])
     (data_cols (replicate 23 [[PStr ''a''], [], [PInt 7]])) \<and>
   map_of (data_cols (replicate 23 [[PStr ''a''], [], [PInt 7]])) ''AC''
     = Some [PStr ''a'', PStr [], PInt 7] \<and>
   length [PStr ''a'', PStr [], PInt 7] \<noteq> MAX_ROWS_SCAN"
  by (simp add: flat_def data_cols_def MAPPINGS_def normalize_columns_def col_vals_raw_def
        MAX_ROWS_SCAN_def)

end
